theory Spec2Isabelle
  imports Complex_Main "HOL-Library.Product_Lexorder" "HOL-Library.Sublist"
begin

section \<open>An M/M/1 queue simulation on a discrete-event kernel\<close>

text \<open>
  The program \<^verbatim>\<open>Simulation_Study.py\<close> runs three SimPy processes (a packet generator, a
  server and a monitor) over one FIFO store. The embedding below follows the script
  function by function. The SimPy kernel it calls (\<^verbatim>\<open>Environment\<close>, \<^verbatim>\<open>Timeout\<close>,
  \<^verbatim>\<open>Process\<close>, \<^verbatim>\<open>Store\<close>) is modelled after the library's documented semantics: every
  scheduled event is a heap entry ordered by (time, priority, event id), a process is
  resumed only when the event it waits for is popped from that heap, and a store request
  that can be served is triggered at once but delivered through the heap.

  Python floats (virtual time, rates) are idealised as exact rationals; packet sizes,
  counters and the buffer limit are Python integers.
\<close>

subsection \<open>Data\<close>

datatype error = ZeroDivisionError | ValueError | RuntimeError

text \<open>The experimental data of the script (lines 19 to 27).\<close>

record config =
  SERVER_RATE :: rat
  TIME_ARRIVAL :: rat
  SIZE_PACKET :: rat
  RANDOM_SEED :: int
  SIMULATION_TIME :: rat
  NUMBER_PACKETS :: int
  QUEUE_LIMIT :: int
  LIMIT_BYTES :: bool
  SAMPLING_INTERVALL :: rat

text \<open>Class \<^verbatim>\<open>Packet\<close>: its three attributes.\<close>

record Packet =
  pkt_id :: int
  pkt_size :: int
  pkt_time :: rat

datatype proc = Generator | Server | Monitor

text \<open>
  A scheduled event together with the callback it carries: the continuation of the
  process that waits for it, including that process's local variable \<^verbatim>\<open>packet\<close>.
\<close>

datatype event =
    Initialize proc
  | GeneratorTimeout
  | ServiceTimeout Packet
  | MonitorTimeout
  | StorePut
  | StoreGet Packet
  | ProcessEnd "error option"
  | Until

text \<open>An entry of \<^verbatim>\<open>env._queue\<close>: the tuple (time, priority, eid) and the event.\<close>

type_synonym entry = "(rat \<times> nat \<times> nat) \<times> event"

definition URGENT :: nat where
  "URGENT = 0"

definition NORMAL :: nat where
  "NORMAL = 1"

text \<open>
  The seeded random source is a parameter: \<open>R seed k\<close> is the \<open>k\<close>-th value of
  \<^verbatim>\<open>-log(1.0 - random())\<close> that the generator yields after \<^verbatim>\<open>random.seed(seed)\<close>, so that
  \<^verbatim>\<open>expovariate(lambd)\<close> is that value divided by \<^verbatim>\<open>lambd\<close>.
\<close>

type_synonym stream = "int \<Rightarrow> nat \<Rightarrow> rat"

text \<open>
  The whole mutable state: the environment (clock, event heap, event id counter), the
  position in the random stream, the store (its items and its pending get requests), the
  position of the generator's \<^verbatim>\<open>for\<close> loop, the module's global variables (lines 30 to 44)
  and the packets printed by the server.
\<close>

record sim =
  env_now :: rat
  env_queue :: "entry list"
  env_eid :: nat
  rng_pos :: nat
  store_items :: "Packet list"
  store_get_queue :: nat
  gen_i :: int
  byte_size :: int
  packets_sent :: int
  packets_rec :: int
  packets_drop :: int
  packets_queue :: int
  queue_times :: "rat list"
  queue_sizes :: "int list"
  byte_sizes :: "int list"
  packet_times :: "rat list"
  samp_time :: "rat list"
  packets_recorded :: int
  bytes_recorded :: int
  queue_avg_sizes :: "rat list"
  queue_avg_times :: "rat list"
  stdout :: "Packet list"

subsection \<open>The kernel: scheduling and the store\<close>

text \<open>
  \<^verbatim>\<open>Environment.schedule\<close>: push (now + delay, priority, next eid, event). The heap is kept
  as a list sorted by the tuple, so that its head is what \<^verbatim>\<open>heappop\<close> returns.
\<close>

definition schedule :: "event \<Rightarrow> nat \<Rightarrow> rat \<Rightarrow> sim \<Rightarrow> sim" where
  "schedule ev priority delay s =
     s\<lparr>env_queue := insort_key fst ((env_now s + delay, priority, env_eid s), ev) (env_queue s),
       env_eid := env_eid s + 1\<rparr>"

text \<open>
  \<^verbatim>\<open>Store._trigger_get\<close> with \<^verbatim>\<open>_do_get\<close>: the first pending get request, if any, succeeds
  with the head of the items when there is one; its event is scheduled at the current time.
\<close>

definition trigger_get :: "sim \<Rightarrow> sim" where
  "trigger_get s =
     (if 0 < store_get_queue s then
        (case store_items s of
           [] \<Rightarrow> s
         | p # rest \<Rightarrow>
             schedule (StoreGet p) NORMAL 0
               (s\<lparr>store_items := rest, store_get_queue := store_get_queue s - 1\<rparr>))
      else s)"

text \<open>\<^verbatim>\<open>queue.put(packet)\<close> on a store of unbounded capacity: append and succeed.\<close>

definition store_put :: "Packet \<Rightarrow> sim \<Rightarrow> sim" where
  "store_put p s = schedule StorePut NORMAL 0 (s\<lparr>store_items := store_items s @ [p]\<rparr>)"

text \<open>\<^verbatim>\<open>queue.get()\<close>: enqueue the request, then try to serve it.\<close>

definition store_get :: "sim \<Rightarrow> sim" where
  "store_get s = trigger_get (s\<lparr>store_get_queue := store_get_queue s + 1\<rparr>)"

text \<open>
  What a process does when it stops running: it is suspended on an event, its function
  has returned, or it has raised. \<^verbatim>\<open>Process._resume\<close> schedules the process's own event in
  the last two cases; a failed one crashes the run when it is popped.
\<close>

datatype outcome = Suspended | Returned | Raised error

fun resume :: "outcome \<times> sim \<Rightarrow> sim" where
  "resume (Suspended, s) = s"
| "resume (Returned, s) = schedule (ProcessEnd None) NORMAL 0 s"
| "resume (Raised e, s) = schedule (ProcessEnd (Some e)) NORMAL 0 s"

text \<open>\<^verbatim>\<open>yield env.timeout(delay)\<close>: a negative delay raises \<^verbatim>\<open>ValueError\<close>.\<close>

definition timeout :: "event \<Rightarrow> rat \<Rightarrow> sim \<Rightarrow> outcome \<times> sim" where
  "timeout ev delay s =
     (if delay < 0 then (Raised ValueError, s) else (Suspended, schedule ev NORMAL delay s))"

subsection \<open>The script's functions\<close>

text \<open>Python's \<^verbatim>\<open>int()\<close> on a float truncates towards zero.\<close>

definition py_int :: "rat \<Rightarrow> int" where
  "py_int x = (if x < 0 then \<lceil>x\<rceil> else \<lfloor>x\<rfloor>)"

definition draw :: "stream \<Rightarrow> config \<Rightarrow> sim \<Rightarrow> rat \<times> sim" where
  "draw R cfg s = (R (RANDOM_SEED cfg) (rng_pos s), s\<lparr>rng_pos := rng_pos s + 1\<rparr>)"

text \<open>\<^verbatim>\<open>toQueue\<close> (lines 76 to 89).\<close>

definition toQueue :: "config \<Rightarrow> Packet \<Rightarrow> sim \<Rightarrow> sim" where
  "toQueue cfg packet s0 =
     (let s = s0\<lparr>packets_rec := packets_rec s0 + 1\<rparr>;
          queue_byte_count = byte_size s + pkt_size packet
      in if LIMIT_BYTES cfg \<and> queue_byte_count \<ge> QUEUE_LIMIT cfg then
           s\<lparr>packets_drop := packets_drop s + 1\<rparr>
         else if \<not> LIMIT_BYTES cfg \<and> int (length (store_items s)) \<ge> QUEUE_LIMIT cfg then
           s\<lparr>packets_drop := packets_drop s + 1\<rparr>
         else
           store_put packet
             (s\<lparr>byte_size := queue_byte_count, packets_queue := packets_queue s + 1\<rparr>))"

text \<open>
  \<^verbatim>\<open>generator\<close> (lines 57 to 63), in two parts: from the head of the \<^verbatim>\<open>for\<close> loop to the
  \<^verbatim>\<open>yield\<close>, and from the \<^verbatim>\<open>yield\<close> to the end of the loop body.
\<close>

definition generator_loop :: "config \<Rightarrow> stream \<Rightarrow> sim \<Rightarrow> outcome \<times> sim" where
  "generator_loop cfg R s =
     (if gen_i s < NUMBER_PACKETS cfg then
        (let s1 = s\<lparr>gen_i := gen_i s + 1\<rparr> in
         if TIME_ARRIVAL cfg = 0 then (Raised ZeroDivisionError, s1)
         else
           (let lambd = 1 / TIME_ARRIVAL cfg; (x, s2) = draw R cfg s1 in
            if lambd = 0 then (Raised ZeroDivisionError, s2)
            else timeout GeneratorTimeout (x / lambd) s2))
      else (Returned, s))"

definition generator_body :: "config \<Rightarrow> stream \<Rightarrow> sim \<Rightarrow> outcome \<times> sim" where
  "generator_body cfg R s =
     (let s1 = s\<lparr>packets_sent := packets_sent s + 1\<rparr> in
      if SIZE_PACKET cfg = 0 then (Raised ZeroDivisionError, s1)
      else
        (let lambd = 1 / SIZE_PACKET cfg; (x, s2) = draw R cfg s1 in
         if lambd = 0 then (Raised ZeroDivisionError, s2)
         else
           (let packet = \<lparr>pkt_id = packets_sent s2, pkt_size = py_int (x / lambd),
                          pkt_time = env_now s2\<rparr>
            in generator_loop cfg R (toQueue cfg packet s2))))"

text \<open>\<^verbatim>\<open>recorder\<close> (lines 92 to 99).\<close>

definition recorder :: "Packet \<Rightarrow> sim \<Rightarrow> sim" where
  "recorder packet s =
     (let arrive_time = env_now s;
          qt = queue_times s @ [arrive_time - pkt_time packet]
      in s\<lparr>queue_times := qt,
           packet_times := packet_times s @ [arrive_time],
           queue_avg_times := queue_avg_times s @ [sum_list qt / of_nat (length qt)],
           packets_recorded := packets_recorded s + 1,
           bytes_recorded := bytes_recorded s + pkt_size packet\<rparr>)"

text \<open>
  \<^verbatim>\<open>server\<close> (lines 66 to 73), in three parts: the \<^verbatim>\<open>yield queue.get()\<close>, from there to
  the \<^verbatim>\<open>yield env.timeout(...)\<close>, and from there to the end of the loop body.
\<close>

definition server_wait :: "sim \<Rightarrow> outcome \<times> sim" where
  "server_wait s = (Suspended, store_get s)"

definition server_take :: "config \<Rightarrow> Packet \<Rightarrow> sim \<Rightarrow> outcome \<times> sim" where
  "server_take cfg packet s =
     (let s1 = s\<lparr>byte_size := byte_size s - pkt_size packet\<rparr> in
      if SERVER_RATE cfg = 0 then (Raised ZeroDivisionError, s1)
      else timeout (ServiceTimeout packet) (of_int (pkt_size packet) * 8 / SERVER_RATE cfg) s1)"

definition server_done :: "Packet \<Rightarrow> sim \<Rightarrow> outcome \<times> sim" where
  "server_done packet s =
     (let s1 = recorder packet s in server_wait (s1\<lparr>stdout := stdout s1 @ [packet]\<rparr>))"

text \<open>\<^verbatim>\<open>monitor\<close> (lines 102 to 109), in two parts around its \<^verbatim>\<open>yield\<close>.\<close>

definition monitor_wait :: "config \<Rightarrow> sim \<Rightarrow> outcome \<times> sim" where
  "monitor_wait cfg s =
     (if SAMPLING_INTERVALL cfg = 0 then (Raised ZeroDivisionError, s)
      else timeout MonitorTimeout (1 / SAMPLING_INTERVALL cfg) s)"

definition monitor_sample :: "config \<Rightarrow> sim \<Rightarrow> outcome \<times> sim" where
  "monitor_sample cfg s =
     (let qs = queue_sizes s @ [int (length (store_items s))]
      in monitor_wait cfg
           (s\<lparr>byte_sizes := byte_sizes s @ [byte_size s],
              queue_sizes := qs,
              queue_avg_sizes := queue_avg_sizes s @ [of_int (sum_list qs) / of_nat (length qs)],
              samp_time := samp_time s @ [env_now s]\<rparr>))"

subsection \<open>The event loop\<close>

text \<open>What leaves \<^verbatim>\<open>Environment.step\<close> as an exception.\<close>

datatype exn = StopSimulation | EmptySchedule | Crash error

text \<open>The callbacks of a popped event.\<close>

fun fire :: "config \<Rightarrow> stream \<Rightarrow> event \<Rightarrow> sim \<Rightarrow> exn option \<times> sim" where
  "fire cfg R (Initialize Generator) s = (None, resume (generator_loop cfg R s))"
| "fire cfg R (Initialize Server) s = (None, resume (server_wait s))"
| "fire cfg R (Initialize Monitor) s = (None, resume (monitor_wait cfg s))"
| "fire cfg R GeneratorTimeout s = (None, resume (generator_body cfg R s))"
| "fire cfg R (ServiceTimeout p) s = (None, resume (server_done p s))"
| "fire cfg R MonitorTimeout s = (None, resume (monitor_sample cfg s))"
| "fire cfg R StorePut s = (None, trigger_get s)"
| "fire cfg R (StoreGet p) s = (None, resume (server_take cfg p s))"
| "fire cfg R (ProcessEnd None) s = (None, s)"
| "fire cfg R (ProcessEnd (Some e)) s = (Some (Crash e), s)"
| "fire cfg R Until s = (Some StopSimulation, s)"

text \<open>\<^verbatim>\<open>Environment.step\<close>: pop the least entry, set the clock, run the callbacks.\<close>

definition step :: "config \<Rightarrow> stream \<Rightarrow> sim \<Rightarrow> exn option \<times> sim" where
  "step cfg R s =
     (case env_queue s of
        [] \<Rightarrow> (Some EmptySchedule, s)
      | (k, ev) # rest \<Rightarrow> fire cfg R ev (s\<lparr>env_now := fst k, env_queue := rest\<rparr>))"

text \<open>
  The loop of \<^verbatim>\<open>Environment.run\<close>, with fuel: the state after \<open>n\<close> steps, or the exception
  that ended the loop earlier together with the state it left.
\<close>

fun steps :: "config \<Rightarrow> stream \<Rightarrow> nat \<Rightarrow> sim \<Rightarrow> exn option \<times> sim" where
  "steps cfg R 0 s = (None, s)"
| "steps cfg R (Suc n) s =
     (case step cfg R s of
        (None, s') \<Rightarrow> steps cfg R n s'
      | (Some x, s') \<Rightarrow> (Some x, s'))"

text \<open>The state before anything is scheduled (lines 30 to 44 and 113 to 114).\<close>

definition initial :: sim where
  "initial =
     \<lparr>env_now = 0, env_queue = [], env_eid = 0, rng_pos = 0, store_items = [],
      store_get_queue = 0, gen_i = 0, byte_size = 0, packets_sent = 0, packets_rec = 0,
      packets_drop = 0, packets_queue = 0, queue_times = [], queue_sizes = [],
      byte_sizes = [], packet_times = [], samp_time = [], packets_recorded = 0,
      bytes_recorded = 0, queue_avg_sizes = [], queue_avg_times = [], stdout = []\<rparr>"

text \<open>
  Lines 115 to 118 up to the loop: the three processes are created, each with an urgent
  \<^verbatim>\<open>Initialize\<close> event, and \<^verbatim>\<open>env.run\<close> schedules its urgent stop event at the horizon.
\<close>

definition start :: "config \<Rightarrow> sim" where
  "start cfg =
     schedule Until URGENT (SIMULATION_TIME cfg - 0)
       (schedule (Initialize Monitor) URGENT 0
          (schedule (Initialize Server) URGENT 0
             (schedule (Initialize Generator) URGENT 0 initial)))"

text \<open>The state of the run after \<open>n\<close> steps of the loop (or where the loop ended).\<close>

definition state_at :: "config \<Rightarrow> stream \<Rightarrow> nat \<Rightarrow> sim" where
  "state_at cfg R n = snd (steps cfg R n (start cfg))"

text \<open>
  \<^verbatim>\<open>env.run(until=SIMULATION_TIME)\<close>: a horizon that is not in the future raises
  \<^verbatim>\<open>ValueError\<close> before the loop; the loop ends normally at the stop event, and with an
  error when a failed process event is popped. \<open>None\<close> means that the fuel ran out.
\<close>

definition simulate :: "config \<Rightarrow> stream \<Rightarrow> nat \<Rightarrow> (error + sim) option" where
  "simulate cfg R fuel =
     (if SIMULATION_TIME cfg \<le> 0 then Some (Inl ValueError)
      else
        (case steps cfg R fuel (start cfg) of
           (None, s) \<Rightarrow> None
         | (Some StopSimulation, s) \<Rightarrow> Some (Inr s)
         | (Some EmptySchedule, s) \<Rightarrow> Some (Inl RuntimeError)
         | (Some (Crash e), s) \<Rightarrow> Some (Inl e)))"

subsection \<open>Example configurations\<close>

text \<open>
  Small configurations on which the model is evaluated: a byte-limited run with two
  packets (the first of 250 bytes arrives at time 0, the second of 100 bytes at time 1/2),
  the same run with the buffer limited to one packet, and a packet maker.
\<close>

definition demo_cfg :: config where
  "demo_cfg =
     \<lparr>SERVER_RATE = 1000, TIME_ARRIVAL = 1, SIZE_PACKET = 100, RANDOM_SEED = 42,
      SIMULATION_TIME = 3, NUMBER_PACKETS = 2, QUEUE_LIMIT = 1000, LIMIT_BYTES = True,
      SAMPLING_INTERVALL = 1\<rparr>"

definition demo_stream :: stream where
  "demo_stream seed k = (if k = 0 then 0 else if k = 1 then 5 / 2 else if k = 2 then 1 / 2 else 1)"

definition boundary_cfg :: config where
  "boundary_cfg = demo_cfg\<lparr>QUEUE_LIMIT := 150\<rparr>"

definition count_cfg :: config where
  "count_cfg = demo_cfg\<lparr>QUEUE_LIMIT := 1, LIMIT_BYTES := False\<rparr>"

definition pkt :: "int \<Rightarrow> int \<Rightarrow> Packet" where
  "pkt i n = \<lparr>pkt_id = i, pkt_size = n, pkt_time = 0\<rparr>"

subsection \<open>Invariants of the run\<close>



definition queue_bounded :: "config \<Rightarrow> sim \<Rightarrow> bool" where
  "queue_bounded cfg s \<longleftrightarrow> int (length (store_items s)) \<le> max 0 (QUEUE_LIMIT cfg)"

text \<open>
  The packets that a triggered get request has already removed from the items and that
  wait in the event heap for the server to be resumed with them.
\<close>

fun getting :: "event \<Rightarrow> Packet list" where
  "getting (StoreGet p) = [p]"
| "getting _ = []"

definition transit_of :: "entry list \<Rightarrow> Packet list" where
  "transit_of h = concat (map (getting \<circ> snd) h)"


definition bytes_of :: "Packet list \<Rightarrow> int" where
  "bytes_of ps = sum_list (map pkt_size ps)"



text \<open>An idle system: one packet of 125 bytes arrives at time 0, the server rate is 1000.\<close>

definition idle_cfg :: config where
  "idle_cfg =
     \<lparr>SERVER_RATE = 1000, TIME_ARRIVAL = 1, SIZE_PACKET = 100, RANDOM_SEED = 42,
      SIMULATION_TIME = 2, NUMBER_PACKETS = 1, QUEUE_LIMIT = 1000, LIMIT_BYTES = True,
      SAMPLING_INTERVALL = 1\<rparr>"

definition idle_stream :: stream where
  "idle_stream seed k = (if k = 0 then 0 else 5 / 4)"

text \<open>
  While the loop runs, the heap is sorted, the one stop event of \<^verbatim>\<open>env.run\<close> is pending at
  the horizon, and the monitor's timeouts have normal priority.
\<close>

definition until_key :: "config \<Rightarrow> rat \<times> nat \<times> nat" where
  "until_key cfg = (SIMULATION_TIME cfg, URGENT, 3)"

definition running :: "config \<Rightarrow> sim \<Rightarrow> bool" where
  "running cfg s \<longleftrightarrow>
     sorted (map fst (env_queue s)) \<and>
     (until_key cfg, Until) \<in> set (env_queue s) \<and>
     (\<forall>e \<in> set (env_queue s). snd e = Until \<longrightarrow> fst e = until_key cfg) \<and>
     (\<forall>e \<in> set (env_queue s). snd e = MonitorTimeout \<longrightarrow> fst (snd (fst e)) = NORMAL)"

text \<open>
  A bound on the number of steps still to come: each pending event counts with the events
  it can cause (a monitor timeout with the samples that fit before the horizon), each
  queued packet with its delivery and its service, each generator iteration not yet
  started with its timeout, its put event and its packet.
\<close>

definition samples_left :: "config \<Rightarrow> rat \<Rightarrow> nat" where
  "samples_left cfg t = nat \<lceil>(SIMULATION_TIME cfg - t) * SAMPLING_INTERVALL cfg\<rceil>"

fun weight :: "config \<Rightarrow> entry \<Rightarrow> nat" where
  "weight cfg (k, Initialize Generator) = 2"
| "weight cfg (k, Initialize Server) = 1"
| "weight cfg (k, Initialize Monitor) = 3 + samples_left cfg (fst k)"
| "weight cfg (k, GeneratorTimeout) = 5"
| "weight cfg (k, ServiceTimeout p) = 1"
| "weight cfg (k, MonitorTimeout) = 2 + samples_left cfg (fst k)"
| "weight cfg (k, StorePut) = 1"
| "weight cfg (k, StoreGet p) = 2"
| "weight cfg (k, ProcessEnd r) = 1"
| "weight cfg (k, Until) = 1"

definition potential :: "config \<Rightarrow> sim \<Rightarrow> nat" where
  "potential cfg s =
     sum_list (map (weight cfg) (env_queue s)) + 2 * length (store_items s) +
     4 * nat (NUMBER_PACKETS cfg - gen_i s)"

text \<open>
  The monitor's own events in the heap, and its timeline: the samples taken so far are
  the multiples of the sampling period, all before the horizon, and the monitor's one
  pending event is due at the next multiple.
\<close>

fun mon_token :: "event \<Rightarrow> bool" where
  "mon_token (Initialize Monitor) = True"
| "mon_token MonitorTimeout = True"
| "mon_token _ = False"

definition mon_entries :: "entry list \<Rightarrow> entry list" where
  "mon_entries h = filter (mon_token \<circ> snd) h"

definition period :: "config \<Rightarrow> rat" where
  "period cfg = 1 / SAMPLING_INTERVALL cfg"

definition multiples :: "rat \<Rightarrow> nat \<Rightarrow> rat list" where
  "multiples P m = map (\<lambda>k. of_nat k * P) [1..<Suc m]"

definition on_schedule :: "config \<Rightarrow> rat list \<Rightarrow> entry \<Rightarrow> bool" where
  "on_schedule cfg st e \<longleftrightarrow>
     (snd e = MonitorTimeout \<longrightarrow> fst (fst e) = of_nat (Suc (length st)) * period cfg) \<and>
     (snd e = Initialize Monitor \<longrightarrow> fst (fst e) = 0 \<and> st = [])"

definition timeline :: "config \<Rightarrow> sim \<Rightarrow> bool" where
  "timeline cfg s \<longleftrightarrow>
     samp_time s = multiples (period cfg) (length (samp_time s)) \<and>
     (\<forall>t \<in> set (samp_time s). t < SIMULATION_TIME cfg) \<and>
     length (mon_entries (env_queue s)) \<le> 1 \<and>
     (0 < SAMPLING_INTERVALL cfg \<longrightarrow> mon_entries (env_queue s) \<noteq> []) \<and>
     (\<forall>e \<in> set (mon_entries (env_queue s)). on_schedule cfg (samp_time s) e)"

text \<open>
  A configuration under which no process raises: positive rates, means, horizon and
  sampling rate, and a random source whose draws are not negative. No failed process event
  is pending then.
\<close>

definition well_formed :: "config \<Rightarrow> stream \<Rightarrow> bool" where
  "well_formed cfg R \<longleftrightarrow>
     0 < SERVER_RATE cfg \<and> 0 < TIME_ARRIVAL cfg \<and> 0 < SIZE_PACKET cfg \<and>
     0 < SIMULATION_TIME cfg \<and> 0 < SAMPLING_INTERVALL cfg \<and>
     (\<forall>k. 0 \<le> R (RANDOM_SEED cfg) k)"

definition healthy :: "sim \<Rightarrow> bool" where
  "healthy s \<longleftrightarrow> (\<forall>e \<in> set (env_queue s). \<forall>err. snd e \<noteq> ProcessEnd (Some err))"

section \<open>Properties\<close>

subsection \<open>Unfolding and induction over the run\<close>

lemmas kernel_defs = schedule_def trigger_get_def store_put_def store_get_def timeout_def

lemmas script_defs = draw_def toQueue_def generator_loop_def generator_body_def recorder_def
  server_wait_def server_take_def server_done_def monitor_wait_def monitor_sample_def

lemma steps_invariant:
  assumes "P s"
    and "\<And>s x s'. P s \<Longrightarrow> step cfg R s = (x, s') \<Longrightarrow> P s'"
  shows "P (snd (steps cfg R n s))"
  using assms(1)
proof (induction n arbitrary: s)
  case 0
  then show ?case by simp
next
  case (Suc n)
  obtain x s' where st: "step cfg R s = (x, s')" by (cases "step cfg R s")
  with Suc.prems assms(2) have "P s'" by blast
  with Suc.IH st show ?case by (cases x) auto
qed

lemma state_at_invariant:
  assumes "P (start cfg)"
    and "\<And>s x s'. P s \<Longrightarrow> step cfg R s = (x, s') \<Longrightarrow> P s'"
  shows "P (state_at cfg R n)"
  unfolding state_at_def using assms by (rule steps_invariant)

lemma step_cases:
  assumes "step cfg R s = (x, s')"
  obtains (empty) "env_queue s = []" "x = Some EmptySchedule" "s' = s"
  | (pop) k ev rest where "env_queue s = (k, ev) # rest"
      "fire cfg R ev (s\<lparr>env_now := fst k, env_queue := rest\<rparr>) = (x, s')"
  using assms unfolding step_def by (auto split: list.splits)

subsection \<open>Admission control\<close>

lemma toQueue_drop_bytes:
  "LIMIT_BYTES cfg \<Longrightarrow> QUEUE_LIMIT cfg \<le> byte_size s + pkt_size p \<Longrightarrow>
   toQueue cfg p s = s\<lparr>packets_rec := packets_rec s + 1, packets_drop := packets_drop s + 1\<rparr>"
  by (simp add: toQueue_def)

lemma toQueue_admit_bytes:
  "LIMIT_BYTES cfg \<Longrightarrow> byte_size s + pkt_size p < QUEUE_LIMIT cfg \<Longrightarrow>
   toQueue cfg p s =
     store_put p (s\<lparr>packets_rec := packets_rec s + 1, byte_size := byte_size s + pkt_size p,
       packets_queue := packets_queue s + 1\<rparr>)"
  by (simp add: toQueue_def)

lemma toQueue_count:
  "\<not> LIMIT_BYTES cfg \<Longrightarrow>
   toQueue cfg p s =
     (if QUEUE_LIMIT cfg \<le> int (length (store_items s))
      then s\<lparr>packets_rec := packets_rec s + 1, packets_drop := packets_drop s + 1\<rparr>
      else store_put p (s\<lparr>packets_rec := packets_rec s + 1,
        byte_size := byte_size s + pkt_size p, packets_queue := packets_queue s + 1\<rparr>))"
  by (simp add: toQueue_def)

lemma store_put_fields [simp]:
  "store_items (store_put p s) = store_items s @ [p]"
  "byte_size (store_put p s) = byte_size s"
  "packets_rec (store_put p s) = packets_rec s"
  "packets_drop (store_put p s) = packets_drop s"
  "packets_queue (store_put p s) = packets_queue s"
  "packets_sent (store_put p s) = packets_sent s"
  by (simp_all add: store_put_def schedule_def)

text \<open>
  C5. In byte-limited mode a packet whose size brings the byte count exactly to the limit
  is dropped, and a packet one byte smaller is admitted at the tail. With limit 150 and
  packets of 80, 60 and 50 bytes submitted in a row to the empty buffer, the first two are
  admitted and the third is dropped: 140 bytes occupied, one dropped, two admitted.
\<close>

theorem toQueue_byte_boundary:
  "(LIMIT_BYTES cfg \<and> pkt_size p = QUEUE_LIMIT cfg - byte_size s \<longrightarrow>
      packets_drop (toQueue cfg p s) = packets_drop s + 1 \<and>
      packets_queue (toQueue cfg p s) = packets_queue s \<and>
      store_items (toQueue cfg p s) = store_items s \<and>
      byte_size (toQueue cfg p s) = byte_size s) \<and>
   (LIMIT_BYTES cfg \<and> pkt_size q = QUEUE_LIMIT cfg - byte_size s - 1 \<longrightarrow>
      packets_drop (toQueue cfg q s) = packets_drop s \<and>
      packets_queue (toQueue cfg q s) = packets_queue s + 1 \<and>
      store_items (toQueue cfg q s) = store_items s @ [q] \<and>
      byte_size (toQueue cfg q s) = byte_size s + pkt_size q) \<and>
   (LIMIT_BYTES cfg' \<and> QUEUE_LIMIT cfg' = 150 \<and>
    pkt_size p1 = 80 \<and> pkt_size p2 = 60 \<and> pkt_size p3 = 50 \<longrightarrow>
      (let s3 = toQueue cfg' p3 (toQueue cfg' p2 (toQueue cfg' p1 initial))
       in store_items s3 = [p1, p2] \<and> byte_size s3 = 140 \<and>
          packets_drop s3 = 1 \<and> packets_queue s3 = 2))"
proof (intro conjI impI)
  assume a: "LIMIT_BYTES cfg' \<and> QUEUE_LIMIT cfg' = 150 \<and>
    pkt_size p1 = 80 \<and> pkt_size p2 = 60 \<and> pkt_size p3 = 50"
  define s1 where "s1 = toQueue cfg' p1 initial"
  define s2 where "s2 = toQueue cfg' p2 s1"
  have 1: "store_items s1 = [p1] \<and> byte_size s1 = 80 \<and> packets_drop s1 = 0 \<and>
      packets_queue s1 = 1"
    using a unfolding s1_def by (simp add: toQueue_admit_bytes initial_def)
  have 2: "store_items s2 = [p1, p2] \<and> byte_size s2 = 140 \<and> packets_drop s2 = 0 \<and>
      packets_queue s2 = 2"
    using a 1 unfolding s2_def by (simp add: toQueue_admit_bytes)
  have "store_items (toQueue cfg' p3 s2) = [p1, p2] \<and> byte_size (toQueue cfg' p3 s2) = 140 \<and>
      packets_drop (toQueue cfg' p3 s2) = 1 \<and> packets_queue (toQueue cfg' p3 s2) = 2"
    using a 2 by (simp add: toQueue_drop_bytes)
  then show "let s3 = toQueue cfg' p3 (toQueue cfg' p2 (toQueue cfg' p1 initial))
       in store_items s3 = [p1, p2] \<and> byte_size s3 = 140 \<and>
          packets_drop s3 = 1 \<and> packets_queue s3 = 2"
    by (simp add: s1_def s2_def)
qed (simp_all add: toQueue_drop_bytes toQueue_admit_bytes)

theorem toQueue_byte_boundary_witness:
  "packets_drop (toQueue boundary_cfg (pkt 1 150) initial) = 1 \<and>
   store_items (toQueue boundary_cfg (pkt 1 150) initial) = [] \<and>
   packets_queue (toQueue boundary_cfg (pkt 2 149) initial) = 1 \<and>
   store_items (toQueue boundary_cfg (pkt 2 149) initial) = [pkt 2 149] \<and>
   byte_size (toQueue boundary_cfg (pkt 3 50)
     (toQueue boundary_cfg (pkt 2 60) (toQueue boundary_cfg (pkt 1 80) initial))) = 140"
  using toQueue_byte_boundary [of boundary_cfg "pkt 1 150" initial "pkt 2 149" boundary_cfg
      "pkt 1 80" "pkt 2 60" "pkt 3 50"]
  by (simp add: boundary_cfg_def demo_cfg_def pkt_def initial_def Let_def)

lemma queue_bounded_fire:
  "\<not> LIMIT_BYTES cfg \<Longrightarrow> queue_bounded cfg s \<Longrightarrow> fire cfg R ev s = (x, s') \<Longrightarrow>
   queue_bounded cfg s'"
  by (cases "(cfg, R, ev, s)" rule: fire.cases)
    (auto simp: queue_bounded_def kernel_defs script_defs Let_def split: if_splits list.splits)

lemma queue_bounded_step:
  assumes "\<not> LIMIT_BYTES cfg" and "queue_bounded cfg s" and "step cfg R s = (x, s')"
  shows "queue_bounded cfg s'"
  using assms(3)
proof (cases rule: step_cases)
  case empty
  with assms(2) show ?thesis by simp
next
  case (pop k ev rest)
  have "queue_bounded cfg (s\<lparr>env_now := fst k, env_queue := rest\<rparr>)"
    using assms(2) by (simp add: queue_bounded_def)
  from assms(1) this pop(2) show ?thesis by (rule queue_bounded_fire)
qed

lemma queue_bounded_start: "queue_bounded cfg (start cfg)"
  by (simp add: queue_bounded_def start_def initial_def schedule_def)

text \<open>
  C1, as the code has it. In count-limited mode \<^verbatim>\<open>toQueue\<close> compares the current queue
  length itself (not the length plus one) with the limit: it drops the packet when the
  length is at least the limit and appends it to the tail otherwise. Hence the queue
  length never exceeds a non-negative limit during the run; it can attain it.
\<close>

theorem toQueue_count_limit:
  "\<not> LIMIT_BYTES cfg \<Longrightarrow>
     store_items (toQueue cfg p s) =
       (if QUEUE_LIMIT cfg \<le> int (length (store_items s)) then store_items s
        else store_items s @ [p]) \<and>
     packets_drop (toQueue cfg p s) =
       (if QUEUE_LIMIT cfg \<le> int (length (store_items s)) then packets_drop s + 1
        else packets_drop s) \<and>
     packets_queue (toQueue cfg p s) =
       (if QUEUE_LIMIT cfg \<le> int (length (store_items s)) then packets_queue s
        else packets_queue s + 1) \<and>
     int (length (store_items (state_at cfg R n))) \<le> max 0 (QUEUE_LIMIT cfg)"
proof -
  assume c: "\<not> LIMIT_BYTES cfg"
  have "queue_bounded cfg (state_at cfg R n)"
    using queue_bounded_start queue_bounded_step [OF c] by (rule state_at_invariant)
  then show ?thesis
    using c by (simp add: toQueue_count queue_bounded_def)
qed

theorem toQueue_count_limit_witness:
  "store_items (toQueue count_cfg (pkt 1 10) initial) = [pkt 1 10] \<and>
   packets_drop (toQueue count_cfg (pkt 2 10) (toQueue count_cfg (pkt 1 10) initial)) = 1 \<and>
   length (store_items (state_at count_cfg demo_stream 4)) = 1"
proof -
  have c: "\<not> LIMIT_BYTES count_cfg"
    by (simp add: count_cfg_def)
  have e: "length (store_items (state_at count_cfg demo_stream 4)) = 1"
    by code_simp
  show ?thesis
    using toQueue_count_limit [OF c, of "pkt 1 10" initial demo_stream 4]
      toQueue_count_limit [OF c, of "pkt 2 10" "toQueue count_cfg (pkt 1 10) initial" demo_stream 4]
      e
    by (simp add: count_cfg_def demo_cfg_def initial_def)
qed

text \<open>
  C1, as stated, fails: with limit 1 and an empty queue the candidate occupancy 0 + 1
  reaches the limit, yet the packet is admitted and the queue length attains the limit.
\<close>

theorem count_limit_reached:
  "\<not> LIMIT_BYTES count_cfg \<and>
   QUEUE_LIMIT count_cfg \<le> int (length (store_items initial)) + 1 \<and>
   packets_drop (toQueue count_cfg (pkt 1 10) initial) = 0 \<and>
   store_items (toQueue count_cfg (pkt 1 10) initial) = [pkt 1 10] \<and>
   int (length (store_items (toQueue count_cfg (pkt 1 10) initial))) = QUEUE_LIMIT count_cfg"
  by (simp add: toQueue_count count_cfg_def demo_cfg_def initial_def)

subsection \<open>Counters\<close>










subsection \<open>Byte accounting\<close>

lemma bytes_of_simps [simp]:
  "bytes_of [] = 0"
  "bytes_of (p # ps) = pkt_size p + bytes_of ps"
  "bytes_of (ps @ qs) = bytes_of ps + bytes_of qs"
  by (simp_all add: bytes_of_def)

lemma transit_of_simps [simp]:
  "transit_of [] = []"
  "transit_of ((k, ev) # h) = getting ev @ transit_of h"
  by (simp_all add: transit_of_def)

lemma bytes_transit_insort [simp]:
  "bytes_of (transit_of (insort_key fst e h)) =
     bytes_of (getting (snd e)) + bytes_of (transit_of h)"
  by (induction h) (auto simp: transit_of_def)

lemma set_transit_insort [simp]:
  "set (transit_of (insort_key fst e h)) = set (getting (snd e)) \<union> set (transit_of h)"
  by (induction h) (auto simp: transit_of_def)













subsection \<open>Service\<close>

text \<open>
  C7. When the server is resumed with a packet, it suspends for
  \<open>size * 8 / SERVER_RATE\<close>: its timeout is scheduled that much after the current time, and
  the completion is recorded with the time at which that timeout is popped. With rate 1000
  and one packet of 125 bytes arriving at time 0 in an idle system, the run records the
  completion time 1 (and the queueing delay 1).
\<close>

theorem service_duration:
  "(SERVER_RATE cfg \<noteq> 0 \<and> 0 \<le> of_int (pkt_size p) * 8 / SERVER_RATE cfg \<longrightarrow>
      fst (server_take cfg p s) = Suspended \<and>
      ((env_now s + of_int (pkt_size p) * 8 / SERVER_RATE cfg, NORMAL, env_eid s),
        ServiceTimeout p) \<in> set (env_queue (snd (server_take cfg p s)))) \<and>
   packet_times (snd (fire cfg R (ServiceTimeout p) s)) = packet_times s @ [env_now s] \<and>
   (case simulate idle_cfg idle_stream 20 of
      Some (Inr s) \<Rightarrow>
        stdout s = [\<lparr>pkt_id = 1, pkt_size = 125, pkt_time = 0\<rparr>] \<and>
        packet_times s = [1] \<and> queue_times s = [1]
    | _ \<Rightarrow> False)"
proof (intro conjI impI)
  assume "SERVER_RATE cfg \<noteq> 0 \<and> 0 \<le> of_int (pkt_size p) * 8 / SERVER_RATE cfg"
  then show "fst (server_take cfg p s) = Suspended"
    and "((env_now s + of_int (pkt_size p) * 8 / SERVER_RATE cfg, NORMAL, env_eid s),
        ServiceTimeout p) \<in> set (env_queue (snd (server_take cfg p s)))"
    by (simp_all add: server_take_def timeout_def schedule_def set_insort_key Let_def)
next
  show "packet_times (snd (fire cfg R (ServiceTimeout p) s)) = packet_times s @ [env_now s]"
    by (simp add: server_done_def server_wait_def recorder_def kernel_defs Let_def
        split: list.splits)
next
  show "case simulate idle_cfg idle_stream 20 of
      Some (Inr s) \<Rightarrow>
        stdout s = [\<lparr>pkt_id = 1, pkt_size = 125, pkt_time = 0\<rparr>] \<and>
        packet_times s = [1] \<and> queue_times s = [1]
    | _ \<Rightarrow> False"
    by code_simp
qed

theorem service_duration_witness:
  "env_queue (snd (server_take idle_cfg (pkt 1 125) initial)) =
     [((1, NORMAL, 0), ServiceTimeout (pkt 1 125))]"
proof -
  have h: "SERVER_RATE idle_cfg \<noteq> 0 \<and>
      0 \<le> of_int (pkt_size (pkt 1 125)) * 8 / SERVER_RATE idle_cfg"
    by (simp add: idle_cfg_def pkt_def)
  have e: "env_queue (snd (server_take idle_cfg (pkt 1 125) initial)) =
     [((1, NORMAL, 0), ServiceTimeout (pkt 1 125))]"
    by code_simp
  show ?thesis
    using service_duration [of idle_cfg "pkt 1 125" initial] h e by simp
qed

subsection \<open>Termination of the loop\<close>

lemma sum_list_map_insort [simp]:
  fixes w :: "'a \<Rightarrow> nat"
  shows "sum_list (map w (insort_key f e h)) = w e + sum_list (map w h)"
  by (induction h) auto

lemma samples_left_step:
  assumes "0 < SAMPLING_INTERVALL cfg"
  shows "samples_left cfg (t + 1 / SAMPLING_INTERVALL cfg) \<le> samples_left cfg t"
    and "t < SIMULATION_TIME cfg \<Longrightarrow>
      samples_left cfg (t + 1 / SAMPLING_INTERVALL cfg) < samples_left cfg t"
proof -
  let ?r = "SAMPLING_INTERVALL cfg"
  let ?x = "(SIMULATION_TIME cfg - t) * ?r"
  have eq: "(SIMULATION_TIME cfg - (t + 1 / ?r)) * ?r = ?x - 1"
    using assms by (simp add: field_simps)
  have c: "\<lceil>?x - 1\<rceil> = \<lceil>?x\<rceil> - 1" by simp
  show "samples_left cfg (t + 1 / ?r) \<le> samples_left cfg t"
    unfolding samples_left_def eq c by simp
  assume "t < SIMULATION_TIME cfg"
  with assms have "0 < ?x" by simp
  then have "0 < \<lceil>?x\<rceil>" by simp
  then show "samples_left cfg (t + 1 / ?r) < samples_left cfg t"
    unfolding samples_left_def eq c by simp
qed

lemma rate_positive: "r \<noteq> 0 \<Longrightarrow> \<not> 1 / r < 0 \<Longrightarrow> 0 < (r::rat)"
  by (simp add: not_less zero_le_divide_iff)

lemma potential_fire:
  assumes "fire cfg R ev s = (None, s')"
    and "ev = MonitorTimeout \<longrightarrow> env_now s < SIMULATION_TIME cfg"
  shows "potential cfg s' < weight cfg ((env_now s, pr, e), ev) + potential cfg s"
  using assms
  by (cases "(cfg, R, ev, s)" rule: fire.cases)
    (auto simp: potential_def kernel_defs script_defs Let_def
      split: if_splits list.splits dest!: rate_positive
      intro: le_less_trans[OF samples_left_step(1)] samples_left_step(2))

lemma running_fire:
  assumes "fire cfg R ev s = (None, s')"
    and "sorted (map fst (env_queue s))"
    and "(until_key cfg, Until) \<in> set (env_queue s)"
    and "\<forall>e \<in> set (env_queue s). snd e = Until \<longrightarrow> fst e = until_key cfg"
    and "\<forall>e \<in> set (env_queue s). snd e = MonitorTimeout \<longrightarrow> fst (snd (fst e)) = NORMAL"
  shows "running cfg s'"
  using assms
  by (cases "(cfg, R, ev, s)" rule: fire.cases)
    (auto simp: running_def kernel_defs script_defs Let_def sorted_insort_key set_insort_key
      split: if_splits list.splits)

lemma key_before_until:
  assumes "fst (snd k) = NORMAL" and "k \<le> until_key cfg"
  shows "fst k < SIMULATION_TIME cfg"
  using assms
  by (cases k) (auto simp: until_key_def NORMAL_def URGENT_def less_eq_prod_def)

lemma running_step:
  assumes "running cfg s" and "step cfg R s = (None, s')"
  shows "running cfg s' \<and> potential cfg s' < potential cfg s"
  using assms(2)
proof (cases rule: step_cases)
  case empty
  then show ?thesis by simp
next
  case (pop k ev rest)
  let ?s0 = "s\<lparr>env_now := fst k, env_queue := rest\<rparr>"
  from assms(1) pop(1) have srt: "sorted (k # map fst rest)"
    and mon: "\<forall>e \<in> set ((k, ev) # rest). snd e = MonitorTimeout \<longrightarrow> fst (snd (fst e)) = NORMAL"
    and one: "\<forall>e \<in> set ((k, ev) # rest). snd e = Until \<longrightarrow> fst e = until_key cfg"
    and unt: "(until_key cfg, Until) \<in> set ((k, ev) # rest)"
    by (simp_all add: running_def)
  have "ev \<noteq> Until" using pop(2) by auto
  with unt have unt': "(until_key cfg, Until) \<in> set rest" by auto
  have r: "running cfg s'"
    using pop(2) srt unt' mon one by (intro running_fire [where s = ?s0]) simp_all
  have "env_now ?s0 < SIMULATION_TIME cfg" if "ev = MonitorTimeout"
  proof -
    from that mon have "fst (snd k) = NORMAL" by simp
    moreover from srt unt' have "k \<le> until_key cfg" by force
    ultimately show ?thesis
      using key_before_until [of k cfg] by simp
  qed
  then have "potential cfg s' <
      weight cfg ((env_now ?s0, fst (snd k), snd (snd k)), ev) + potential cfg ?s0"
    using pop(2) by (intro potential_fire) simp_all
  moreover have "potential cfg s = weight cfg (k, ev) + potential cfg ?s0"
    using pop(1) by (simp add: potential_def)
  ultimately show ?thesis using r by simp
qed

lemma running_start: "running cfg (start cfg)"
  by (simp add: running_def start_def schedule_def initial_def sorted_insort_key set_insort_key
      until_key_def)

text \<open>
  The loop ends: from a running state, after finitely many steps an exception leaves
  \<^verbatim>\<open>step\<close>; whatever the steps preserve holds in the last state before it.
\<close>

lemma run_ends:
  assumes "running cfg s" and "P s"
    and pres: "\<And>s s'. running cfg s \<Longrightarrow> P s \<Longrightarrow> step cfg R s = (None, s') \<Longrightarrow> P s'"
  shows "\<exists>n s1 x s'. steps cfg R n s = (None, s1) \<and> running cfg s1 \<and> P s1 \<and>
    step cfg R s1 = (Some x, s') \<and> steps cfg R (Suc n) s = (Some x, s')"
  using assms(1,2)
proof (induction "potential cfg s" arbitrary: s rule: less_induct)
  case less
  obtain x s2 where st: "step cfg R s = (x, s2)" by (cases "step cfg R s")
  show ?case
  proof (cases x)
    case None
    with st less.prems have r2: "running cfg s2" and lt: "potential cfg s2 < potential cfg s"
      and p2: "P s2"
      using running_step pres by blast+
    from less.hyps [OF lt r2 p2] obtain n s1 y s' where
      "steps cfg R n s2 = (None, s1)" "running cfg s1" "P s1"
      "step cfg R s1 = (Some y, s')" "steps cfg R (Suc n) s2 = (Some y, s')"
      by blast
    with st None have "steps cfg R (Suc n) s = (None, s1) \<and> running cfg s1 \<and> P s1 \<and>
      step cfg R s1 = (Some y, s') \<and> steps cfg R (Suc (Suc n)) s = (Some y, s')"
      by simp
    then show ?thesis by blast
  next
    case (Some y)
    with st less.prems have "steps cfg R 0 s = (None, s) \<and> running cfg s \<and> P s \<and>
      step cfg R s = (Some y, s2) \<and> steps cfg R (Suc 0) s = (Some y, s2)"
      by simp
    then show ?thesis by blast
  qed
qed

subsection \<open>The monitor's timeline\<close>

lemma mon_entries_insort_other:
  "\<not> mon_token (snd e) \<Longrightarrow> mon_entries (insort_key fst e h) = mon_entries h"
  by (simp add: mon_entries_def filter_insort_triv)

lemma mon_entries_insort_mon:
  "mon_token (snd e) \<Longrightarrow> mon_entries h = [] \<Longrightarrow> mon_entries (insort_key fst e h) = [e]"
  by (induction h) (auto simp: mon_entries_def split: if_splits)

lemma mon_entries_Cons:
  "mon_entries ((k, ev) # h) = (if mon_token ev then (k, ev) # mon_entries h else mon_entries h)"
  by (simp add: mon_entries_def)

lemma fire_other_monitor:
  assumes "fire cfg R ev s = (x, s')" and "\<not> mon_token ev"
  shows "samp_time s' = samp_time s \<and> mon_entries (env_queue s') = mon_entries (env_queue s)"
  using assms
  by (cases "(cfg, R, ev, s)" rule: fire.cases)
    (auto simp: kernel_defs script_defs Let_def mon_entries_insort_other
      split: if_splits list.splits)

lemma multiples_Suc: "multiples P (Suc m) = multiples P m @ [of_nat (Suc m) * P]"
  by (simp add: multiples_def)

lemma timeline_wait:
  assumes "mon_entries (env_queue s) = []"
    and "samp_time s = multiples (period cfg) (length (samp_time s))"
    and "\<forall>t \<in> set (samp_time s). t < SIMULATION_TIME cfg"
    and "env_now s + period cfg = of_nat (Suc (length (samp_time s))) * period cfg"
  shows "timeline cfg (resume (monitor_wait cfg s))"
proof (cases "SAMPLING_INTERVALL cfg = 0 \<or> 1 / SAMPLING_INTERVALL cfg < 0")
  case True
  then have "\<not> 0 < SAMPLING_INTERVALL cfg"
    by (auto simp: divide_less_0_iff)
  with True assms show ?thesis
    by (auto simp: timeline_def monitor_wait_def timeout_def schedule_def
        mon_entries_insort_other)
next
  case False
  then have "resume (monitor_wait cfg s) = schedule MonitorTimeout NORMAL (period cfg) s"
    by (simp add: monitor_wait_def timeout_def period_def)
  moreover have "mon_entries (env_queue (schedule MonitorTimeout NORMAL (period cfg) s)) =
      [((env_now s + period cfg, NORMAL, env_eid s), MonitorTimeout)]"
    using assms(1) by (simp add: schedule_def mon_entries_insort_mon)
  ultimately show ?thesis
    using assms(2,3,4) by (simp add: timeline_def on_schedule_def schedule_def)
qed

lemma timeline_step:
  assumes "running cfg s" and "timeline cfg s" and "step cfg R s = (x, s')"
  shows "timeline cfg s'"
  using assms(3)
proof (cases rule: step_cases)
  case empty
  with assms(2) show ?thesis by simp
next
  case (pop k ev rest)
  let ?s0 = "s\<lparr>env_now := fst k, env_queue := rest\<rparr>"
  let ?m = "length (samp_time s)"
  from assms(2) have st: "samp_time s = multiples (period cfg) ?m"
    and lt: "\<forall>t \<in> set (samp_time s). t < SIMULATION_TIME cfg"
    by (simp_all add: timeline_def)
  show ?thesis
  proof (cases "mon_token ev")
    case False
    with pop(2) have "samp_time s' = samp_time ?s0"
      and "mon_entries (env_queue s') = mon_entries (env_queue ?s0)"
      using fire_other_monitor by blast+
    with False assms(2) pop(1) show ?thesis
      by (simp add: timeline_def mon_entries_Cons)
  next
    case True
    with assms(2) pop(1) have none: "mon_entries rest = []"
      and sched: "on_schedule cfg (samp_time s) (k, ev)"
      by (simp_all add: timeline_def mon_entries_Cons)
    from True consider "ev = Initialize Monitor" | "ev = MonitorTimeout"
      by (cases ev rule: mon_token.cases) simp_all
    then show ?thesis
    proof cases
      case 1
      with sched have "fst k = 0" and "samp_time s = []"
        by (simp_all add: on_schedule_def)
      then have "timeline cfg (resume (monitor_wait cfg ?s0))"
        using none by (intro timeline_wait) (simp_all add: multiples_def)
      with 1 pop(2) show ?thesis by auto
    next
      case 2
      with sched have at: "fst k = of_nat (Suc ?m) * period cfg"
        by (simp add: on_schedule_def)
      from assms(1) pop(1) 2 have "fst (snd k) = NORMAL" and "k \<le> until_key cfg"
        by (auto simp: running_def)
      then have before: "fst k < SIMULATION_TIME cfg"
        by (rule key_before_until)
      let ?s1 = "?s0\<lparr>byte_sizes := byte_sizes ?s0 @ [byte_size ?s0],
        queue_sizes := queue_sizes ?s0 @ [int (length (store_items ?s0))],
        queue_avg_sizes := queue_avg_sizes ?s0 @
          [of_int (sum_list (queue_sizes ?s0 @ [int (length (store_items ?s0))])) /
           of_nat (length (queue_sizes ?s0 @ [int (length (store_items ?s0))]))],
        samp_time := samp_time ?s0 @ [env_now ?s0]\<rparr>"
      have ms: "monitor_sample cfg ?s0 = monitor_wait cfg ?s1"
        by (simp add: monitor_sample_def Let_def)
      have "timeline cfg (resume (monitor_wait cfg ?s1))"
        using none st lt at before
        by (intro timeline_wait) (simp_all add: multiples_Suc algebra_simps)
      with 2 pop(2) ms show ?thesis by auto
    qed
  qed
qed

lemma timeline_start: "timeline cfg (start cfg)"
  by (auto simp: timeline_def start_def schedule_def initial_def mon_entries_def
      multiples_def on_schedule_def)

subsection \<open>No process raises under a well-formed configuration\<close>

lemma delay_nonneg: "\<forall>k. 0 \<le> R c k \<Longrightarrow> 0 < (T::rat) \<Longrightarrow> \<not> R c j * T < 0"
  by (simp add: not_less)

lemma service_nonneg: "0 \<le> n \<Longrightarrow> 0 < (r::rat) \<Longrightarrow> \<not> of_int n * 8 / r < 0"
  by (simp add: not_less)

lemma healthy_fire:
  assumes "fire cfg R ev s = (x, s')"
    and "well_formed cfg R"
    and "\<forall>p \<in> set (getting ev). 0 \<le> pkt_size p"
    and "healthy s"
  shows "healthy s'"
  using assms
  by (cases "(cfg, R, ev, s)" rule: fire.cases)
    (auto simp: healthy_def well_formed_def kernel_defs script_defs Let_def set_insort_key
      delay_nonneg service_nonneg
      split: if_splits list.splits)

end
